theory Spec2Isabelle
  imports Complex_Main "HOL-Library.Word"
begin

section \<open>JavaScript values used by App.tsx\<close>

text \<open>
  A JavaScript number is an IEEE 754 double: a finite value, one of the two infinities, or
  NaN. A finite double is kept as the real number it stands for, and every arithmetic
  operation rounds its exact result to the nearest double, ties to the even significand,
  with gradual underflow below \<open>2 ^ - 1022\<close> and overflow to an infinity from
  \<open>2 ^ 1024 - 2 ^ 970\<close> on. The two zeros are identified: they are equal under
  \<open>===\<close>, and the only zero divisors the program can meet are the length of an empty
  array under a zero sum and an extent \<open>max - min\<close>, which is never the negative zero.
\<close>

datatype jsnum = Fin real | PosInf | NegInf | NaN

text \<open>
  The exponent of the unit in the last place for a magnitude \<open>a\<close>: the largest \<open>e\<close>
  from \<open>- 1074\<close> to \<open>971\<close> with \<open>2 ^ (e + 52) \<le> a\<close>, and \<open>- 1074\<close>, the spacing of
  the subnormal doubles, when there is none. The doubles of that magnitude are the
  multiples of \<open>2 ^ e\<close>.
\<close>

fun ulp_search :: "nat \<Rightarrow> int \<Rightarrow> real \<Rightarrow> int" where
  "ulp_search 0 e a = e"
| "ulp_search (Suc n) e a = (if 2 powi (e + 52) \<le> a then e else ulp_search n (e - 1) a)"

definition ulp_exponent :: "real \<Rightarrow> int" where
  "ulp_exponent a = ulp_search 2045 971 a"

text \<open>The nearest integer, the even one of the two when they are equally near.\<close>

definition round_half_even :: "real \<Rightarrow> int" where
  "round_half_even q =
     (let f = \<lfloor>q\<rfloor>; d = q - of_int f
      in if d < 1 / 2 then f
         else if 1 / 2 < d then f + 1
         else if even f then f else f + 1)"

definition round_value :: "real \<Rightarrow> real" where
  "round_value r =
     (let e = ulp_exponent \<bar>r\<bar>
      in of_int (round_half_even (r / 2 powi e)) * 2 powi e)"

text \<open>The double that an exact result \<open>r\<close> is rounded to.\<close>

definition round_double :: "real \<Rightarrow> jsnum" where
  "round_double r =
     (let v = round_value r
      in if 2 ^ 1024 \<le> \<bar>v\<bar> then (if 0 < r then PosInf else NegInf) else Fin v)"

text \<open>A real number is a double when rounding leaves it as it is.\<close>

definition is_double :: "real \<Rightarrow> bool" where
  "is_double r = (round_double r = Fin r)"

text \<open>A coordinate read out of a destructured array is a number or \<open>undefined\<close>.\<close>

datatype jsval = Undefined | Num jsnum

fun ToNumber :: "jsval \<Rightarrow> jsnum" where
  "ToNumber Undefined = NaN"
| "ToNumber (Num n) = n"

fun js_neg :: "jsnum \<Rightarrow> jsnum" where
  "js_neg (Fin a) = Fin (- a)"
| "js_neg PosInf = NegInf"
| "js_neg NegInf = PosInf"
| "js_neg NaN = NaN"

fun js_add :: "jsnum \<Rightarrow> jsnum \<Rightarrow> jsnum" where
  "js_add NaN _ = NaN"
| "js_add _ NaN = NaN"
| "js_add (Fin a) (Fin b) = round_double (a + b)"
| "js_add PosInf NegInf = NaN"
| "js_add NegInf PosInf = NaN"
| "js_add PosInf _ = PosInf"
| "js_add _ PosInf = PosInf"
| "js_add NegInf _ = NegInf"
| "js_add _ NegInf = NegInf"

definition js_sub :: "jsnum \<Rightarrow> jsnum \<Rightarrow> jsnum" where
  "js_sub a b = js_add a (js_neg b)"

text \<open>The sign of a non-NaN value: \<open>-1\<close>, \<open>0\<close> or \<open>1\<close>.\<close>

fun js_sign :: "jsnum \<Rightarrow> int" where
  "js_sign (Fin a) = (if a < 0 then - 1 else if a = 0 then 0 else 1)"
| "js_sign PosInf = 1"
| "js_sign NegInf = - 1"
| "js_sign NaN = 0"

definition signed_inf :: "int \<Rightarrow> jsnum" where
  "signed_inf s = (if s < 0 then NegInf else PosInf)"

fun js_mul :: "jsnum \<Rightarrow> jsnum \<Rightarrow> jsnum" where
  "js_mul NaN _ = NaN"
| "js_mul _ NaN = NaN"
| "js_mul (Fin a) (Fin b) = round_double (a * b)"
| "js_mul a b = (if js_sign a * js_sign b = 0 then NaN else signed_inf (js_sign a * js_sign b))"

fun js_div :: "jsnum \<Rightarrow> jsnum \<Rightarrow> jsnum" where
  "js_div NaN _ = NaN"
| "js_div _ NaN = NaN"
| "js_div (Fin a) (Fin b) =
     (if b = 0 then (if a = 0 then NaN else signed_inf (js_sign (Fin a)))
      else round_double (a / b))"
| "js_div (Fin a) _ = Fin 0"
| "js_div a (Fin b) = signed_inf (js_sign a * (if b < 0 then - 1 else 1))"
| "js_div _ _ = NaN"

text \<open>The comparison \<open><\<close>: false whenever an operand is NaN.\<close>

fun js_lt :: "jsnum \<Rightarrow> jsnum \<Rightarrow> bool" where
  "js_lt NaN _ = False"
| "js_lt _ NaN = False"
| "js_lt (Fin a) (Fin b) = (a < b)"
| "js_lt NegInf NegInf = False"
| "js_lt NegInf _ = True"
| "js_lt _ NegInf = False"
| "js_lt PosInf _ = False"
| "js_lt _ PosInf = True"

text \<open>Strict equality \<open>===\<close> on numbers: NaN is equal to nothing, itself included.\<close>

definition js_eq :: "jsnum \<Rightarrow> jsnum \<Rightarrow> bool" where
  "js_eq a b = (a \<noteq> NaN \<and> b \<noteq> NaN \<and> a = b)"

text \<open>
  \<open>Math.min\<close> and \<open>Math.max\<close> of an argument list: every argument is coerced to a
  number, a NaN among them makes the result NaN, and the empty list gives
  \<open>+Infinity\<close> and \<open>-Infinity\<close>.
\<close>

definition Math_min :: "jsval list \<Rightarrow> jsnum" where
  "Math_min vs =
     (let coerced = map ToNumber vs
      in if NaN \<in> set coerced then NaN
         else foldl (\<lambda>lowest n. if js_lt n lowest then n else lowest) PosInf coerced)"

definition Math_max :: "jsval list \<Rightarrow> jsnum" where
  "Math_max vs =
     (let coerced = map ToNumber vs
      in if NaN \<in> set coerced then NaN
         else foldl (\<lambda>highest n. if js_lt highest n then n else highest) NegInf coerced)"

text \<open>A JavaScript string is a sequence of 16-bit code units.\<close>

type_synonym jsstring = "16 word list"

section \<open>The data of App.tsx\<close>

text \<open>
  \<open>types.ts\<close> is not among the sources; the records carry the fields that the object
  literals of \<open>App.tsx\<close> build and read.
\<close>

record Point =
  x :: jsval
  y :: jsval

record Bounds =
  minX :: jsnum
  minY :: jsnum
  maxX :: jsnum
  maxY :: jsnum
  width :: jsnum
  height :: jsnum

record LabelResult =
  position :: Point
  rotation :: jsnum
  actualFontSize :: jsnum
  textWidth :: jsnum
  textHeight :: jsnum
  isInside :: bool

section \<open>getBounds and findOptimalLabelPosition\<close>

definition getBounds :: "Point list \<Rightarrow> Bounds" where
  "getBounds pts =
     (let xs = map x pts;
          ys = map y pts;
          minX = Math_min xs;
          maxX = Math_max xs;
          minY = Math_min ys;
          maxY = Math_max ys
      in \<lparr>minX = minX, minY = minY, maxX = maxX, maxY = maxY,
          width = js_sub maxX minX, height = js_sub maxY minY\<rparr>)"

text \<open>\<open>points.reduce((s, p) => s + p.x, 0)\<close>, for either coordinate.\<close>

definition reduce_sum :: "(Point \<Rightarrow> jsval) \<Rightarrow> Point list \<Rightarrow> jsnum" where
  "reduce_sum coord pts = foldl (\<lambda>s p. js_add s (ToNumber (coord p))) (Fin 0) pts"

definition findOptimalLabelPosition :: "Point list \<Rightarrow> jsstring \<Rightarrow> jsnum \<Rightarrow> LabelResult" where
  "findOptimalLabelPosition pts unused_text fontSize =
     (let cx = js_div (reduce_sum x pts) (Fin (real (length pts)));
          cy = js_div (reduce_sum y pts) (Fin (real (length pts)))
      in \<lparr>position = \<lparr>x = Num cx, y = Num cy\<rparr>,
          rotation = Fin 0,
          actualFontSize = fontSize,
          textWidth = js_mul fontSize (Fin 6),
          textHeight = fontSize,
          isInside = True\<rparr>)"

text \<open>A point with two finite coordinates.\<close>

definition real_point :: "real \<times> real \<Rightarrow> Point" where
  "real_point c = \<lparr>x = Num (Fin (fst c)), y = Num (Fin (snd c))\<rparr>"

text \<open>The vertices of the ring \<open>POLYGON((0 0, 10 0, 10 10, 0 10, 0 0))\<close>.\<close>

definition square_ring :: "(real \<times> real) list" where
  "square_ring = [(0, 0), (10, 0), (10, 10), (0, 10), (0, 0)]"

section \<open>The viewport transform\<close>

record RiverData =
  name :: jsstring
  points :: "Point list"
  bounds :: Bounds







section \<open>Strings\<close>

text \<open>A string literal of the source, as code units.\<close>

definition str :: "string \<Rightarrow> jsstring" where
  "str s = map of_char s"

text \<open>
  The code units that \<open>String.prototype.trim\<close>, the class \<open>\s\<close> of a regular
  expression and the white space of a numeric string all accept: WhiteSpace and
  LineTerminator of ECMAScript.
\<close>

definition is_space :: "16 word \<Rightarrow> bool" where
  "is_space c =
     (c = 0x9 \<or> c = 0xA \<or> c = 0xB \<or> c = 0xC \<or> c = 0xD \<or> c = 0x20 \<or> c = 0xA0
      \<or> c = 0x1680 \<or> (0x2000 \<le> c \<and> c \<le> 0x200A) \<or> c = 0x2028 \<or> c = 0x2029
      \<or> c = 0x202F \<or> c = 0x205F \<or> c = 0x3000 \<or> c = 0xFEFF)"

definition trim :: "jsstring \<Rightarrow> jsstring" where
  "trim s = rev (dropWhile is_space (rev (dropWhile is_space s)))"

text \<open>\<open>s.split(sep)\<close> for a separator of one code unit: never the empty array.\<close>

fun split_on :: "16 word \<Rightarrow> jsstring \<Rightarrow> jsstring list" where
  "split_on sep [] = [[]]"
| "split_on sep (c # cs) =
     (if c = sep then [] # split_on sep cs
      else (case split_on sep cs of
              [] \<Rightarrow> [[c]]
            | piece # pieces \<Rightarrow> (c # piece) # pieces))"

text \<open>
  \<open>s.split(/\s+/)\<close>: the pieces between the maximal runs of white space. A run at the
  start or at the end leaves an empty piece there, and the empty string gives one empty
  piece, since \<open>\s+\<close> does not match the empty string.
\<close>

function split_ws :: "jsstring \<Rightarrow> jsstring list" where
  "split_ws [] = [[]]"
| "split_ws (c # cs) =
     (if is_space c then [] # split_ws (dropWhile is_space cs)
      else (case split_ws cs of
              [] \<Rightarrow> [[c]]
            | piece # pieces \<Rightarrow> (c # piece) # pieces))"
  by pat_completeness auto
termination
  by (relation "measure length") (auto simp: length_dropWhile_le less_Suc_eq_le)

section \<open>Number applied to a string\<close>

text \<open>
  \<open>Number(s)\<close> for a string is StringToNumber of ECMAScript: white space is trimmed, the
  empty string is \<open>0\<close>, a StrNumericLiteral has its mathematical value rounded to the
  nearest double, and every other string is NaN. (ECMAScript lets an engine cut a decimal
  literal after 20 significant digits before rounding; the engines round the full value,
  and so does the model.)
\<close>

definition is_digit :: "16 word \<Rightarrow> bool" where
  "is_digit c = (0x30 \<le> c \<and> c \<le> 0x39)"

definition digit_of :: "16 word \<Rightarrow> int" where
  "digit_of c =
     (if 0x30 \<le> c \<and> c \<le> 0x39 then uint c - 0x30
      else if 0x61 \<le> c \<and> c \<le> 0x66 then uint c - 0x61 + 10
      else uint c - 0x41 + 10)"

definition digits_value :: "int \<Rightarrow> jsstring \<Rightarrow> int" where
  "digits_value base ds = foldl (\<lambda>a c. base * a + digit_of c) 0 ds"

definition is_hex_digit :: "16 word \<Rightarrow> bool" where
  "is_hex_digit c = (is_digit c \<or> (0x61 \<le> c \<and> c \<le> 0x66) \<or> (0x41 \<le> c \<and> c \<le> 0x46))"

definition is_octal_digit :: "16 word \<Rightarrow> bool" where
  "is_octal_digit c = (0x30 \<le> c \<and> c \<le> 0x37)"

definition is_binary_digit :: "16 word \<Rightarrow> bool" where
  "is_binary_digit c = (c = 0x30 \<or> c = 0x31)"

text \<open>\<open>0x\<close>, \<open>0o\<close> and \<open>0b\<close> literals: no sign, at least one digit.\<close>

definition NonDecimalIntegerLiteral :: "jsstring \<Rightarrow> jsnum option" where
  "NonDecimalIntegerLiteral t =
     (case t of
        z # k # ds \<Rightarrow>
          if z \<noteq> 0x30 \<or> ds = [] then None
          else if (k = 0x78 \<or> k = 0x58) \<and> list_all is_hex_digit ds
            then Some (round_double (of_int (digits_value 16 ds)))
          else if (k = 0x6F \<or> k = 0x4F) \<and> list_all is_octal_digit ds
            then Some (round_double (of_int (digits_value 8 ds)))
          else if (k = 0x62 \<or> k = 0x42) \<and> list_all is_binary_digit ds
            then Some (round_double (of_int (digits_value 2 ds)))
          else None
      | _ \<Rightarrow> None)"

definition DecimalDigits :: "jsstring \<Rightarrow> int option" where
  "DecimalDigits ds =
     (if ds \<noteq> [] \<and> list_all is_digit ds then Some (digits_value 10 ds) else None)"

definition SignedInteger :: "jsstring \<Rightarrow> int option" where
  "SignedInteger t =
     (case t of
        [] \<Rightarrow> None
      | c # ds \<Rightarrow>
          if c = 0x2B then DecimalDigits ds
          else if c = 0x2D then map_option uminus (DecimalDigits ds)
          else DecimalDigits t)"

text \<open>The optional exponent part: absent, or \<open>e\<close> or \<open>E\<close> and a signed integer.\<close>

definition ExponentPart_opt :: "jsstring \<Rightarrow> int option" where
  "ExponentPart_opt t =
     (case t of
        [] \<Rightarrow> Some 0
      | c # ds \<Rightarrow> if c = 0x65 \<or> c = 0x45 then SignedInteger ds else None)"

definition scale10 :: "int \<Rightarrow> int \<Rightarrow> real" where
  "scale10 m e = (if 0 \<le> e then of_int m * 10 ^ nat e else of_int m / 10 ^ nat (- e))"

definition StrUnsignedDecimalLiteral :: "jsstring \<Rightarrow> jsnum option" where
  "StrUnsignedDecimalLiteral t =
     (if t = str ''Infinity'' then Some PosInf
      else
        (let int_part = takeWhile is_digit t;
             after_int = dropWhile is_digit t;
             has_dot = (after_int \<noteq> [] \<and> hd after_int = 0x2E);
             frac_part = (if has_dot then takeWhile is_digit (tl after_int) else []);
             after_frac = (if has_dot then dropWhile is_digit (tl after_int) else after_int)
         in if int_part = [] \<and> frac_part = [] then None
            else (case ExponentPart_opt after_frac of
                    None \<Rightarrow> None
                  | Some e \<Rightarrow>
                      Some (round_double (scale10 (digits_value 10 (int_part @ frac_part))
                                                  (e - int (length frac_part)))))))"

definition StrDecimalLiteral :: "jsstring \<Rightarrow> jsnum option" where
  "StrDecimalLiteral t =
     (case t of
        [] \<Rightarrow> None
      | c # r \<Rightarrow>
          if c = 0x2B then StrUnsignedDecimalLiteral r
          else if c = 0x2D then map_option js_neg (StrUnsignedDecimalLiteral r)
          else StrUnsignedDecimalLiteral t)"

definition StrNumericLiteral :: "jsstring \<Rightarrow> jsnum option" where
  "StrNumericLiteral t =
     (case NonDecimalIntegerLiteral t of
        Some v \<Rightarrow> Some v
      | None \<Rightarrow> StrDecimalLiteral t)"

definition Number :: "jsstring \<Rightarrow> jsnum" where
  "Number s =
     (let t = trim s
      in if t = [] then Fin 0
         else (case StrNumericLiteral t of Some v \<Rightarrow> v | None \<Rightarrow> NaN))"

section \<open>parseWKTPolygon\<close>

text \<open>
  Case-insensitive matching of a pattern of upper-case ASCII letters: without the
  \<open>u\<close> flag a code unit matches such a letter only if it is that letter or its
  lower-case form.
\<close>

definition canonicalize :: "16 word \<Rightarrow> 16 word" where
  "canonicalize c = (if 0x61 \<le> c \<and> c \<le> 0x7A then c - 0x20 else c)"

fun match_ignore_case :: "jsstring \<Rightarrow> jsstring \<Rightarrow> jsstring option" where
  "match_ignore_case [] s = Some s"
| "match_ignore_case (u # us) [] = None"
| "match_ignore_case (u # us) (c # cs) =
     (if canonicalize c = u then match_ignore_case us cs else None)"

text \<open>
  \<open>s.replace(/^POLYGON\s*\(\(/i, '')\<close>: after the keyword the greedy \<open>\s*\<close> takes the
  whole run of white space, and giving some of it back cannot help, since the next code
  unit has to be a parenthesis. A string that does not match is returned as it is.
\<close>

definition replace_polygon_prefix :: "jsstring \<Rightarrow> jsstring" where
  "replace_polygon_prefix s =
     (case match_ignore_case (str ''POLYGON'') s of
        None \<Rightarrow> s
      | Some r \<Rightarrow>
          (case dropWhile is_space r of
             a # b # rest \<Rightarrow> if a = 0x28 \<and> b = 0x28 then rest else s
           | _ \<Rightarrow> s))"

text \<open>\<open>s.replace(/\)\)$/i, '')\<close>: without the \<open>m\<close> flag \<open>$\<close> is the end of the string.\<close>

definition replace_closing_suffix :: "jsstring \<Rightarrow> jsstring" where
  "replace_closing_suffix s =
     (if 2 \<le> length s \<and> drop (length s - 2) s = str ''))'' then take (length s - 2) s else s)"

text \<open>An element of an array read by destructuring: \<open>undefined\<close> past the end.\<close>

definition element :: "jsnum list \<Rightarrow> nat \<Rightarrow> jsval" where
  "element ns i = (if i < length ns then Num (ns ! i) else Undefined)"

definition parse_pair :: "jsstring \<Rightarrow> Point" where
  "parse_pair pair =
     (let ns = map Number (split_ws (trim pair))
      in \<lparr>x = element ns 0, y = element ns 1\<rparr>)"

definition cleaned :: "jsstring \<Rightarrow> jsstring" where
  "cleaned wkt = replace_closing_suffix (replace_polygon_prefix (trim wkt))"

definition parseWKTPolygon :: "jsstring \<Rightarrow> Point list" where
  "parseWKTPolygon wkt = map parse_pair (split_on 0x2C (cleaned wkt))"

section \<open>processWKT\<close>

text \<open>
  The calls \<open>Math.min(...xs)\<close> and \<open>Math.max(...xs)\<close> pass every element of the array as
  an argument of its own. ECMAScript sets no bound on the number of arguments, but an
  engine takes only as many as its call stack holds and throws a RangeError beyond that.
  \<open>max_arguments\<close> is that bound of the engine, \<open>None\<close> for an engine without one.
\<close>

datatype js_exception = RangeError

definition within_arguments :: "nat option \<Rightarrow> nat \<Rightarrow> bool" where
  "within_arguments max_arguments n = (case max_arguments of None \<Rightarrow> True | Some m \<Rightarrow> n \<le> m)"

text \<open>
  A call of getBounds: its four spread calls each pass as many arguments as there are
  points, so the first of them throws when the points are more than the engine takes, and
  otherwise all four return and getBounds returns its record.
\<close>

definition getBounds_call :: "nat option \<Rightarrow> Point list \<Rightarrow> js_exception + Bounds" where
  "getBounds_call max_arguments pts =
     (if within_arguments max_arguments (length pts) then Inr (getBounds pts) else Inl RangeError)"

text \<open>
  The part of the component's state that \<open>processWKT\<close> writes. The function sets three
  fields at once and does the rest in a timer callback 200 ms later; the model runs the
  callback right after, with no other event in between.
\<close>

record AppState =
  riverData :: "RiverData option"
  labelResult :: "LabelResult option"
  isProcessing :: bool
  error :: "jsstring option"

text \<open>
  The body of the \<open>try\<close> block: \<open>Inl\<close> when it completes abruptly, which hands
  control to the \<open>catch\<close> clause. The built-ins that parseWKTPolygon calls (\<open>trim\<close>,
  \<open>replace\<close>, \<open>split\<close>, \<open>map\<close>, \<open>Number\<close>) return normally on every string.
\<close>

definition processWKT_try ::
  "nat option \<Rightarrow> jsstring \<Rightarrow> jsstring \<Rightarrow> AppState \<Rightarrow> js_exception + AppState" where
  "processWKT_try max_arguments wkt sourceName st =
     (let pts = parseWKTPolygon wkt
      in if 3 \<le> length pts then
           (case getBounds_call max_arguments pts of
              Inl exception \<Rightarrow> Inl exception
            | Inr b \<Rightarrow>
                if js_eq (width b) (Fin 0) \<or> js_eq (height b) (Fin 0) then
                  Inr (st\<lparr>error := Some (str ''Polygon has zero area or height.''),
                          riverData := None\<rparr>)
                else
                  Inr (st\<lparr>riverData := Some \<lparr>name = sourceName, points = pts, bounds = b\<rparr>\<rparr>))
         else
           Inr (st\<lparr>error := Some (str ''WKT must be a valid POLYGON format.''),
                   riverData := None\<rparr>))"

definition processWKT_timeout ::
  "nat option \<Rightarrow> jsstring \<Rightarrow> jsstring \<Rightarrow> AppState \<Rightarrow> AppState" where
  "processWKT_timeout max_arguments wkt sourceName st =
     (case processWKT_try max_arguments wkt sourceName st of
        Inr st' \<Rightarrow> st'
      | Inl _ \<Rightarrow> st\<lparr>error := Some (str ''Failed to parse WKT string.''), riverData := None\<rparr>)
     \<lparr>isProcessing := False\<rparr>"

definition processWKT ::
  "nat option \<Rightarrow> jsstring \<Rightarrow> jsstring option \<Rightarrow> AppState \<Rightarrow> AppState" where
  "processWKT max_arguments wkt sourceName st =
     processWKT_timeout max_arguments wkt
       (case sourceName of None \<Rightarrow> str ''Manual Entry'' | Some n \<Rightarrow> n)
       (st\<lparr>isProcessing := True, error := None, labelResult := None\<rparr>)"

text \<open>The state before anything has been processed, as the \<open>useState\<close> calls set it.\<close>

definition initial_state :: AppState where
  "initial_state = \<lparr>riverData = None, labelResult = None, isProcessing = False, error = None\<rparr>"

section \<open>Inputs named by the specification\<close>

text \<open>
  The running sums of \<open>reduce\<close> need no rounding: starting from \<open>a\<close>, every partial sum
  of the list is a double as it stands.
\<close>

fun sums_without_rounding :: "real \<Rightarrow> real list \<Rightarrow> bool" where
  "sums_without_rounding a [] = True"
| "sums_without_rounding a (r # rs) = (is_double (a + r) \<and> sums_without_rounding (a + r) rs)"

text \<open>The double nearest to \<open>0.1\<close>, and the double just below it.\<close>

definition tenth :: real where
  "tenth = 7205759403792794 / 72057594037927936"

definition below_tenth :: real where
  "below_tenth = 7205759403792793 / 72057594037927936"
















section \<open>Rounding to the nearest double\<close>

lemma ulp_search_range: "e - int n \<le> ulp_search n e a \<and> ulp_search n e a \<le> e"
proof (induction n arbitrary: e)
  case 0
  show ?case by simp
next
  case (Suc n)
  from Suc [of "e - 1"] show ?case by auto
qed

lemma ulp_search_lower: "ulp_search n e a = e - int n \<or> 2 powi (ulp_search n e a + 52) \<le> a"
proof (induction n arbitrary: e)
  case 0
  show ?case by simp
next
  case (Suc n)
  from Suc [of "e - 1"] show ?case by auto
qed

lemma ulp_search_upper: "ulp_search n e a < e \<Longrightarrow> a < 2 powi (ulp_search n e a + 53)"
proof (induction n arbitrary: e)
  case 0
  then show ?case by simp
next
  case (Suc n)
  show ?case
  proof (cases "2 powi (e + 52) \<le> a")
    case True
    with Suc.prems show ?thesis by simp
  next
    case False
    then have r: "ulp_search (Suc n) e a = ulp_search n (e - 1) a" by simp
    show ?thesis
    proof (cases "ulp_search n (e - 1) a < e - 1")
      case True
      with Suc.IH [of "e - 1"] r show ?thesis by simp
    next
      case False
      with ulp_search_range [of "e - 1" n a] have eq: "ulp_search n (e - 1) a = e - 1" by simp
      have "ulp_search (Suc n) e a + 53 = e + 52" unfolding r eq by simp
      moreover have "a < 2 powi (e + 52)" using \<open>\<not> 2 powi (e + 52) \<le> a\<close> by simp
      ultimately show ?thesis by (simp only:)
    qed
  qed
qed

lemma ulp_exponent_range: "- 1074 \<le> ulp_exponent a" "ulp_exponent a \<le> 971"
  using ulp_search_range [of 971 2045 a] by (simp_all add: ulp_exponent_def)

lemma ulp_exponent_lower: "ulp_exponent a = - 1074 \<or> 2 powi (ulp_exponent a + 52) \<le> a"
  using ulp_search_lower [of 2045 971 a] by (simp add: ulp_exponent_def)

lemma ulp_exponent_upper: "ulp_exponent a = 971 \<or> a < 2 powi (ulp_exponent a + 53)"
proof (cases "ulp_exponent a < 971")
  case True
  then show ?thesis using ulp_search_upper [of 2045 971 a] by (simp add: ulp_exponent_def)
next
  case False
  then show ?thesis using ulp_exponent_range(2) [of a] by simp
qed

lemma two_powi_less: "i < j \<Longrightarrow> (2 :: real) powi i < 2 powi j"
  by (rule power_int_strict_increasing) simp_all

lemma two_powi_le: "i \<le> j \<Longrightarrow> (2 :: real) powi i \<le> 2 powi j"
  by (rule power_int_increasing) simp_all

lemma two_powi_less_cancel: "(2 :: real) powi i < 2 powi j \<Longrightarrow> i < j"
  using two_powi_le [of j i] by (cases "i < j") auto

lemma ulp_exponent_mono:
  assumes "a \<le> b"
  shows "ulp_exponent a \<le> ulp_exponent b"
proof (rule ccontr)
  assume "\<not> ulp_exponent a \<le> ulp_exponent b"
  then have gt: "ulp_exponent b < ulp_exponent a" by simp
  then have "ulp_exponent a \<noteq> - 1074" "ulp_exponent b \<noteq> 971"
    using ulp_exponent_range [of a] ulp_exponent_range [of b] by auto
  then have "2 powi (ulp_exponent a + 52) \<le> a" "b < 2 powi (ulp_exponent b + 53)"
    using ulp_exponent_lower [of a] ulp_exponent_upper [of b] by auto
  with assms have "(2 :: real) powi (ulp_exponent a + 52) < 2 powi (ulp_exponent b + 53)"
    by linarith
  then have "ulp_exponent a + 52 < ulp_exponent b + 53" by (rule two_powi_less_cancel)
  with gt show False by simp
qed

lemma ulp_exponent_eqI:
  assumes "- 1074 \<le> e" and "e \<le> 971"
    and "e = - 1074 \<or> 2 powi (e + 52) \<le> a"
    and "e = 971 \<or> a < 2 powi (e + 53)"
  shows "ulp_exponent a = e"
proof (rule antisym)
  show "ulp_exponent a \<le> e"
  proof (rule ccontr)
    assume "\<not> ulp_exponent a \<le> e"
    then have gt: "e < ulp_exponent a" by simp
    then have "ulp_exponent a \<noteq> - 1074" "e \<noteq> 971"
      using assms(1) ulp_exponent_range(2) [of a] by auto
    then have "2 powi (ulp_exponent a + 52) \<le> a" "a < 2 powi (e + 53)"
      using ulp_exponent_lower [of a] assms(4) by auto
    then have "(2 :: real) powi (ulp_exponent a + 52) < 2 powi (e + 53)" by linarith
    then have "ulp_exponent a + 52 < e + 53" by (rule two_powi_less_cancel)
    with gt show False by simp
  qed
  show "e \<le> ulp_exponent a"
  proof (rule ccontr)
    assume "\<not> e \<le> ulp_exponent a"
    then have gt: "ulp_exponent a < e" by simp
    then have "e \<noteq> - 1074" "ulp_exponent a \<noteq> 971"
      using assms(2) ulp_exponent_range(1) [of a] by auto
    then have "2 powi (e + 52) \<le> a" "a < 2 powi (ulp_exponent a + 53)"
      using ulp_exponent_upper [of a] assms(3) by auto
    then have "(2 :: real) powi (e + 52) < 2 powi (ulp_exponent a + 53)" by linarith
    then have "e + 52 < ulp_exponent a + 53" by (rule two_powi_less_cancel)
    with gt show False by simp
  qed
qed

lemma round_half_even_of_int: "round_half_even (of_int n) = n"
  by (simp add: round_half_even_def)

lemma round_half_even_near:
  assumes "2 * \<bar>q - of_int n\<bar> < 1"
  shows "round_half_even q = n"
proof -
  have "\<lfloor>q\<rfloor> = n \<or> \<lfloor>q\<rfloor> = n - 1"
  proof (cases "of_int n \<le> q")
    case True
    then have "\<lfloor>q\<rfloor> = n" using assms by (intro floor_unique) simp_all
    then show ?thesis by simp
  next
    case False
    then have "\<lfloor>q\<rfloor> = n - 1" using assms by (intro floor_unique) simp_all
    then show ?thesis by simp
  qed
  then show ?thesis
  proof
    assume f: "\<lfloor>q\<rfloor> = n"
    have "of_int n \<le> q" using f by (metis of_int_floor_le)
    then have "q - of_int n < 1 / 2" using assms by simp
    then show ?thesis unfolding round_half_even_def Let_def f by simp
  next
    assume f: "\<lfloor>q\<rfloor> = n - 1"
    have "q < of_int n" using f by (metis floor_less_iff less_add_one diff_add_cancel)
    then have "of_int n - q < 1 / 2" using assms by simp
    then have d: "1 / 2 < q - of_int (n - 1)" by simp
    then have nd: "\<not> q - of_int (n - 1) < 1 / 2" by simp
    show ?thesis unfolding round_half_even_def Let_def f using d nd by simp
  qed
qed

lemma round_half_even_tie:
  assumes "2 * \<bar>q - of_int n\<bar> = 1" and "even n"
  shows "round_half_even q = n"
proof -
  have "q = of_int n + 1 / 2 \<or> q = of_int n - 1 / 2"
    using assms(1) by (cases "of_int n \<le> q") simp_all
  then show ?thesis
  proof
    assume q: "q = of_int n + 1 / 2"
    then have f: "\<lfloor>q\<rfloor> = n" by (intro floor_unique) simp_all
    have d: "q - of_int n = 1 / 2" by (simp add: q)
    show ?thesis using assms(2) unfolding round_half_even_def Let_def f d by simp
  next
    assume q: "q = of_int n - 1 / 2"
    then have f: "\<lfloor>q\<rfloor> = n - 1" by (intro floor_unique) simp_all
    have d: "q - of_int (n - 1) = 1 / 2" by (simp add: q)
    show ?thesis using assms(2) unfolding round_half_even_def Let_def f d by simp
  qed
qed

lemma round_half_even_mono:
  assumes "p \<le> q"
  shows "round_half_even p \<le> round_half_even q"
proof -
  have fl: "\<lfloor>p\<rfloor> \<le> \<lfloor>q\<rfloor>" using assms by (rule floor_mono)
  show ?thesis
  proof (cases "\<lfloor>p\<rfloor> = \<lfloor>q\<rfloor>")
    case True
    then have "p - of_int \<lfloor>p\<rfloor> \<le> q - of_int \<lfloor>q\<rfloor>" using assms by simp
    then show ?thesis
      by (auto simp: round_half_even_def Let_def True)
  next
    case False
    with fl have "\<lfloor>p\<rfloor> + 1 \<le> \<lfloor>q\<rfloor>" by simp
    moreover have "round_half_even p \<le> \<lfloor>p\<rfloor> + 1" by (simp add: round_half_even_def Let_def)
    moreover have "\<lfloor>q\<rfloor> \<le> round_half_even q" by (simp add: round_half_even_def Let_def)
    ultimately show ?thesis by linarith
  qed
qed

lemma round_half_even_minus: "round_half_even (- q) = - round_half_even q"
proof (cases "q = of_int \<lfloor>q\<rfloor>")
  case True
  then obtain n where q: "q = of_int n" by blast
  have "round_half_even (of_int (- n)) = - n" by (rule round_half_even_of_int)
  then show ?thesis by (simp add: q round_half_even_of_int)
next
  case False
  then have f: "\<lfloor>- q\<rfloor> = - \<lfloor>q\<rfloor> - 1" by linarith
  have d: "- q - of_int (- \<lfloor>q\<rfloor> - 1) = 1 - (q - of_int \<lfloor>q\<rfloor>)" by simp
  have rng: "0 < q - of_int \<lfloor>q\<rfloor>" "q - of_int \<lfloor>q\<rfloor> < 1" using False by linarith+
  consider "q - of_int \<lfloor>q\<rfloor> < 1 / 2" | "q - of_int \<lfloor>q\<rfloor> = 1 / 2" | "1 / 2 < q - of_int \<lfloor>q\<rfloor>"
    by linarith
  then show ?thesis
  proof cases
    case 1
    then have "1 / 2 < - q - of_int (- \<lfloor>q\<rfloor> - 1)" unfolding d by linarith
    with 1 show ?thesis unfolding round_half_even_def Let_def f by simp
  next
    case 2
    then have "- q - of_int (- \<lfloor>q\<rfloor> - 1) = 1 / 2" unfolding d by linarith
    with 2 show ?thesis unfolding round_half_even_def Let_def f by simp
  next
    case 3
    then have "- q - of_int (- \<lfloor>q\<rfloor> - 1) < 1 / 2" unfolding d by linarith
    with 3 show ?thesis unfolding round_half_even_def Let_def f by simp
  qed
qed

lemma two_powi_pos: "0 < (2 :: real) powi i"
  by (simp add: zero_less_power_int)

lemma round_half_even_ge: "of_int k \<le> q \<Longrightarrow> k \<le> round_half_even q"
  using round_half_even_mono [of "of_int k" q] by (simp add: round_half_even_of_int)

lemma round_half_even_le: "q \<le> of_int k \<Longrightarrow> round_half_even q \<le> k"
  using round_half_even_mono [of q "of_int k"] by (simp add: round_half_even_of_int)

lemma round_value_minus: "round_value (- r) = - round_value r"
  by (simp add: round_value_def Let_def round_half_even_minus)

lemma round_value_nonneg:
  assumes "0 \<le> r"
  shows "0 \<le> round_value r"
proof -
  have "of_int 0 \<le> r / 2 powi ulp_exponent \<bar>r\<bar>"
    using assms two_powi_pos [of "ulp_exponent \<bar>r\<bar>"] by simp
  then have "0 \<le> round_half_even (r / 2 powi ulp_exponent \<bar>r\<bar>)"
    by (rule round_half_even_ge)
  then show ?thesis
    using two_powi_pos [of "ulp_exponent \<bar>r\<bar>"] by (simp add: round_value_def Let_def)
qed

lemma round_value_mono_nonneg:
  assumes "0 \<le> a" and "a \<le> b"
  shows "round_value a \<le> round_value b"
proof -
  define ea where "ea = ulp_exponent a"
  define eb where "eb = ulp_exponent b"
  have le: "ea \<le> eb" unfolding ea_def eb_def using assms(2) by (rule ulp_exponent_mono)
  have va: "round_value a = of_int (round_half_even (a / 2 powi ea)) * 2 powi ea"
    using assms by (simp add: round_value_def Let_def ea_def)
  have vb: "round_value b = of_int (round_half_even (b / 2 powi eb)) * 2 powi eb"
    using assms by (simp add: round_value_def Let_def eb_def)
  show ?thesis
  proof (cases "ea = eb")
    case True
    have "a / 2 powi eb \<le> b / 2 powi eb"
      using assms(2) two_powi_pos [of eb] by (simp add: divide_right_mono)
    then have "round_half_even (a / 2 powi eb) \<le> round_half_even (b / 2 powi eb)"
      by (rule round_half_even_mono)
    then show ?thesis
      unfolding va vb True using two_powi_pos [of eb] by simp
  next
    case False
    with le have lt: "ea < eb" by simp
    then have "ea \<noteq> 971" "eb \<noteq> - 1074"
      using ulp_exponent_range [of a] ulp_exponent_range [of b] by (auto simp: ea_def eb_def)
    then have ua: "a < 2 powi (ea + 53)" and lb: "2 powi (eb + 52) \<le> b"
      using ulp_exponent_upper [of a] ulp_exponent_lower [of b] by (auto simp: ea_def eb_def)
    have "a / 2 powi ea \<le> 2 powi 53"
      using ua two_powi_pos [of ea] by (simp add: power_int_add field_simps)
    then have "a / 2 powi ea \<le> of_int (2 ^ 53)" by simp
    then have "round_half_even (a / 2 powi ea) \<le> 2 ^ 53" by (rule round_half_even_le)
    then have "(of_int (round_half_even (a / 2 powi ea)) :: real) \<le> of_int (2 ^ 53)"
      by (simp only: of_int_le_iff)
    then have "round_value a \<le> 2 powi 53 * 2 powi ea"
      unfolding va using two_powi_pos [of ea] by simp
    then have hi: "round_value a \<le> 2 powi (ea + 53)"
      by (simp add: power_int_add mult.commute)
    have "2 powi 52 \<le> b / 2 powi eb"
      using lb two_powi_pos [of eb] by (simp add: power_int_add field_simps)
    then have "of_int (2 ^ 52) \<le> b / 2 powi eb" by simp
    then have "2 ^ 52 \<le> round_half_even (b / 2 powi eb)" by (rule round_half_even_ge)
    then have "(of_int (2 ^ 52) :: real) \<le> of_int (round_half_even (b / 2 powi eb))"
      by (simp only: of_int_le_iff)
    then have "2 powi 52 * 2 powi eb \<le> round_value b"
      unfolding vb using two_powi_pos [of eb] by simp
    then have lo: "2 powi (eb + 52) \<le> round_value b"
      by (simp add: power_int_add mult.commute)
    have "(2 :: real) powi (ea + 53) \<le> 2 powi (eb + 52)"
      using lt by (intro two_powi_le) simp
    with hi lo show ?thesis by linarith
  qed
qed

lemma round_value_mono:
  assumes "a \<le> b"
  shows "round_value a \<le> round_value b"
proof (cases "0 \<le> a")
  case True
  then show ?thesis using assms by (rule round_value_mono_nonneg)
next
  case False
  show ?thesis
  proof (cases "b \<le> 0")
    case True
    then have "round_value (- b) \<le> round_value (- a)"
      using assms by (intro round_value_mono_nonneg) simp_all
    then show ?thesis by (simp add: round_value_minus)
  next
    case b: False
    have "round_value (- a) \<ge> 0" using False by (intro round_value_nonneg) simp
    moreover have "round_value b \<ge> 0" using b by (intro round_value_nonneg) simp
    ultimately show ?thesis by (simp add: round_value_minus)
  qed
qed

lemma round_value_exact:
  assumes r: "r = of_int m * 2 powi e0" and m: "\<bar>m\<bar> < 2 ^ 53" and e0: "- 1074 \<le> e0"
  shows "round_value r = r"
proof -
  define e where "e = ulp_exponent \<bar>r\<bar>"
  have abs_r: "\<bar>r\<bar> = of_int \<bar>m\<bar> * 2 powi e0"
    using two_powi_pos [of e0] by (simp add: r abs_mult)
  have "(of_int \<bar>m\<bar> :: real) < of_int (2 ^ 53)" using m by (simp only: of_int_less_iff)
  then have "\<bar>r\<bar> < 2 powi 53 * 2 powi e0"
    unfolding abs_r using two_powi_pos [of e0] by simp
  then have bound: "\<bar>r\<bar> < 2 powi (e0 + 53)" by (simp add: power_int_add mult.commute)
  have le: "e \<le> e0"
  proof (cases "e = - 1074")
    case True
    then show ?thesis using e0 by simp
  next
    case False
    then have "2 powi (e + 52) \<le> \<bar>r\<bar>"
      using ulp_exponent_lower [of "\<bar>r\<bar>"] by (simp add: e_def)
    with bound have "(2 :: real) powi (e + 52) < 2 powi (e0 + 53)" by linarith
    then have "e + 52 < e0 + 53" by (rule two_powi_less_cancel)
    then show ?thesis by simp
  qed
  have "2 powi e0 = (2 :: real) powi (e0 - e) * 2 powi e"
    by (simp add: power_int_diff)
  also have "(2 :: real) powi (e0 - e) = 2 ^ nat (e0 - e)"
    using le by (simp add: power_int_nonneg_exp)
  finally have p: "(2 :: real) powi e0 = 2 ^ nat (e0 - e) * 2 powi e" .
  have q: "r / 2 powi e = of_int (m * 2 ^ nat (e0 - e))"
    using two_powi_pos [of e] by (simp add: r p)
  have "round_value r = of_int (round_half_even (r / 2 powi e)) * 2 powi e"
    by (simp add: round_value_def Let_def e_def)
  also have "\<dots> = of_int (m * 2 ^ nat (e0 - e)) * 2 powi e"
    unfolding q round_half_even_of_int ..
  also have "\<dots> = r" by (simp add: r p)
  finally show ?thesis .
qed

lemma round_double_exact:
  assumes r: "r = of_int m * 2 powi e0" and m: "\<bar>m\<bar> < 2 ^ 53"
    and e0: "- 1074 \<le> e0" "e0 \<le> 971"
  shows "round_double r = Fin r"
proof -
  have v: "round_value r = r" using r m e0(1) by (rule round_value_exact)
  have "(of_int \<bar>m\<bar> :: real) < of_int (2 ^ 53)" using m by (simp only: of_int_less_iff)
  then have "\<bar>r\<bar> < 2 powi 53 * 2 powi e0"
    using two_powi_pos [of e0] by (simp add: r abs_mult)
  also have "\<dots> = 2 powi (e0 + 53)" by (simp add: power_int_add mult.commute)
  also have "\<dots> \<le> 2 powi 1024" using e0(2) by (intro two_powi_le) simp
  finally have "\<bar>r\<bar> < 2 ^ 1024" by simp
  then show ?thesis by (simp add: round_double_def v)
qed

lemma round_double_of_int:
  assumes "\<bar>k\<bar> \<le> 2 ^ 53"
  shows "round_double (of_int k) = Fin (of_int k)"
proof (cases "\<bar>k\<bar> < 2 ^ 53")
  case True
  show ?thesis
    by (rule round_double_exact [of _ k 0]) (use True in simp_all)
next
  case False
  with assms have "\<bar>k\<bar> = 2 ^ 53" by simp
  then have "k = 2 ^ 52 * 2 \<or> k = - (2 ^ 52) * 2" by (cases "0 \<le> k") simp_all
  then show ?thesis
  proof
    assume k: "k = 2 ^ 52 * 2"
    show ?thesis by (rule round_double_exact [of _ "2 ^ 52" 1]) (simp_all add: k)
  next
    assume k: "k = - (2 ^ 52) * 2"
    show ?thesis by (rule round_double_exact [of _ "- (2 ^ 52)" 1]) (simp_all add: k)
  qed
qed

lemma round_double_zero: "round_double 0 = Fin 0"
  using round_double_of_int [of 0] by simp

lemma is_double_of_int: "\<bar>k\<bar> \<le> 2 ^ 53 \<Longrightarrow> is_double (of_int k)"
  by (simp add: is_double_def round_double_of_int)

lemma is_doubleD:
  assumes "is_double r"
  shows "round_value r = r" "\<bar>r\<bar> < 2 ^ 1024"
  using assms by (auto simp: is_double_def round_double_def Let_def split: if_splits)

lemma round_double_between:
  assumes "is_double lo" and "is_double hi" and "lo \<le> r" and "r \<le> hi"
  shows "\<exists>v. round_double r = Fin v \<and> lo \<le> v \<and> v \<le> hi"
proof -
  have "round_value lo \<le> round_value r" using assms(3) by (rule round_value_mono)
  then have lo: "lo \<le> round_value r" using is_doubleD(1) [OF assms(1)] by simp
  have "round_value r \<le> round_value hi" using assms(4) by (rule round_value_mono)
  then have hi: "round_value r \<le> hi" using is_doubleD(1) [OF assms(2)] by simp
  have "\<bar>round_value r\<bar> < 2 ^ 1024"
    using lo hi is_doubleD(2) [OF assms(1)] is_doubleD(2) [OF assms(2)] by linarith
  then have "round_double r = Fin (round_value r)" by (simp add: round_double_def)
  with lo hi show ?thesis by blast
qed

lemma round_double_eqI:
  assumes e: "- 1074 \<le> e" "e \<le> 971"
    and lo: "e = - 1074 \<or> 2 powi (e + 52) \<le> \<bar>r\<bar>"
    and hi: "\<bar>r\<bar> < 2 powi (e + 53)"
    and near: "2 * \<bar>r - of_int n * 2 powi e\<bar> < 2 powi e
             \<or> 2 * \<bar>r - of_int n * 2 powi e\<bar> = 2 powi e \<and> even n"
    and fin: "\<bar>(of_int n :: real) * 2 powi e\<bar> < 2 ^ 1024"
  shows "round_double r = Fin (of_int n * 2 powi e)"
proof -
  have ue: "ulp_exponent \<bar>r\<bar> = e"
    using e lo hi by (intro ulp_exponent_eqI) simp_all
  have d: "\<bar>r / 2 powi e - of_int n\<bar> = \<bar>r - of_int n * 2 powi e\<bar> / 2 powi e"
  proof -
    have "r / 2 powi e - of_int n = (r - of_int n * 2 powi e) / 2 powi e"
      using two_powi_pos [of e] by (simp add: field_simps)
    then show ?thesis using two_powi_pos [of e] by (simp add: abs_divide)
  qed
  have "round_half_even (r / 2 powi e) = n"
  proof (cases "2 * \<bar>r - of_int n * 2 powi e\<bar> < 2 powi e")
    case True
    then have "2 * \<bar>r / 2 powi e - of_int n\<bar> < 1"
      unfolding d using two_powi_pos [of e] by (simp add: field_simps)
    then show ?thesis by (rule round_half_even_near)
  next
    case False
    with near have t: "2 * \<bar>r - of_int n * 2 powi e\<bar> = 2 powi e" and ev: "even n" by auto
    have "2 * \<bar>r / 2 powi e - of_int n\<bar> = 1"
      unfolding d using t two_powi_pos [of e] by (simp add: field_simps)
    then show ?thesis using ev by (rule round_half_even_tie)
  qed
  then have "round_value r = of_int n * 2 powi e"
    by (simp add: round_value_def Let_def ue)
  then show ?thesis using fin by (simp add: round_double_def Let_def del: power_numeral)
qed

lemma round_double_numeral:
  "(numeral k :: int) \<le> 2 ^ 53 \<Longrightarrow> round_double (numeral k) = Fin (numeral k)"
  using round_double_of_int [of "numeral k"] by simp

lemma round_double_neg_numeral:
  "(numeral k :: int) \<le> 2 ^ 53 \<Longrightarrow> round_double (- numeral k) = Fin (- numeral k)"
  using round_double_of_int [of "- numeral k"] by simp

lemma round_double_one: "round_double 1 = Fin 1"
  using round_double_of_int [of 1] by simp

lemma round_double_of_nat: "n \<le> 2 ^ 53 \<Longrightarrow> round_double (real n) = Fin (real n)"
  using round_double_of_int [of "int n"] by simp

lemmas round_double_simps =
  round_double_zero round_double_one round_double_numeral round_double_neg_numeral


section \<open>Sums, minima and maxima of finite coordinates\<close>

lemma foldl_add_exact:
  assumes "sums_without_rounding a (map c ps)"
  shows "foldl (\<lambda>s p. js_add s (ToNumber (Num (Fin (c p))))) (Fin a) ps = Fin (a + sum_list (map c ps))"
  using assms
proof (induction ps arbitrary: a)
  case Nil
  then show ?case by simp
next
  case (Cons p ps)
  then have "round_double (a + c p) = Fin (a + c p)" and "sums_without_rounding (a + c p) (map c ps)"
    by (simp_all add: is_double_def)
  with Cons.IH [of "a + c p"] show ?case by (simp add: add.assoc)
qed

lemma reduce_sum_x_exact:
  assumes "sums_without_rounding 0 (map fst ps)"
  shows "reduce_sum x (map real_point ps) = Fin (sum_list (map fst ps))"
proof -
  have "foldl (\<lambda>s p. js_add s (ToNumber (x p))) (Fin 0) (map real_point ps)
        = foldl (\<lambda>s p. js_add s (ToNumber (Num (Fin (fst p))))) (Fin 0) ps"
    by (simp add: foldl_map real_point_def)
  then show ?thesis using foldl_add_exact [OF assms] by (simp add: reduce_sum_def)
qed

lemma reduce_sum_y_exact:
  assumes "sums_without_rounding 0 (map snd ps)"
  shows "reduce_sum y (map real_point ps) = Fin (sum_list (map snd ps))"
proof -
  have "foldl (\<lambda>s p. js_add s (ToNumber (y p))) (Fin 0) (map real_point ps)
        = foldl (\<lambda>s p. js_add s (ToNumber (Num (Fin (snd p))))) (Fin 0) ps"
    by (simp add: foldl_map real_point_def)
  then show ?thesis using foldl_add_exact [OF assms] by (simp add: reduce_sum_def)
qed

lemma foldl_min_Fin:
  "\<exists>m. foldl (\<lambda>lowest n. if js_lt n lowest then n else lowest) (Fin a) (map Fin rs) = Fin m
     \<and> (m = a \<or> m \<in> set rs) \<and> m \<le> a \<and> (\<forall>r\<in>set rs. m \<le> r)"
proof (induction rs arbitrary: a)
  case Nil
  then show ?case by simp
next
  case (Cons r rs)
  from Cons [of "if r < a then r else a"] obtain m where
    m: "foldl (\<lambda>lowest n. if js_lt n lowest then n else lowest) (Fin (if r < a then r else a)) (map Fin rs) = Fin m"
       "m = (if r < a then r else a) \<or> m \<in> set rs" "m \<le> (if r < a then r else a)" "\<forall>r\<in>set rs. m \<le> r"
    by blast
  show ?case
  proof (cases "r < a")
    case True
    with m show ?thesis by auto
  next
    case False
    with m show ?thesis by auto
  qed
qed

lemma foldl_max_Fin:
  "\<exists>m. foldl (\<lambda>highest n. if js_lt highest n then n else highest) (Fin a) (map Fin rs) = Fin m
     \<and> (m = a \<or> m \<in> set rs) \<and> a \<le> m \<and> (\<forall>r\<in>set rs. r \<le> m)"
proof (induction rs arbitrary: a)
  case Nil
  then show ?case by simp
next
  case (Cons r rs)
  from Cons [of "if a < r then r else a"] obtain m where
    m: "foldl (\<lambda>highest n. if js_lt highest n then n else highest) (Fin (if a < r then r else a)) (map Fin rs) = Fin m"
       "m = (if a < r then r else a) \<or> m \<in> set rs" "(if a < r then r else a) \<le> m" "\<forall>r\<in>set rs. r \<le> m"
    by blast
  show ?case
  proof (cases "a < r")
    case True
    with m show ?thesis by auto
  next
    case False
    with m show ?thesis by auto
  qed
qed

lemma Math_min_real:
  assumes "rs \<noteq> []"
  shows "\<exists>m. Math_min (map (\<lambda>r. Num (Fin r)) rs) = Fin m \<and> m \<in> set rs \<and> (\<forall>r\<in>set rs. m \<le> r)"
proof -
  from assms obtain a as where rs: "rs = a # as" by (cases rs) auto
  from foldl_min_Fin [of a as] obtain m where
    "foldl (\<lambda>lowest n. if js_lt n lowest then n else lowest) (Fin a) (map Fin as) = Fin m"
    "m = a \<or> m \<in> set as" "m \<le> a" "\<forall>r\<in>set as. m \<le> r"
    by blast
  then show ?thesis
    by (auto simp: rs Math_min_def comp_def)
qed

lemma Math_max_real:
  assumes "rs \<noteq> []"
  shows "\<exists>m. Math_max (map (\<lambda>r. Num (Fin r)) rs) = Fin m \<and> m \<in> set rs \<and> (\<forall>r\<in>set rs. r \<le> m)"
proof -
  from assms obtain a as where rs: "rs = a # as" by (cases rs) auto
  from foldl_max_Fin [of a as] obtain m where
    "foldl (\<lambda>highest n. if js_lt highest n then n else highest) (Fin a) (map Fin as) = Fin m"
    "m = a \<or> m \<in> set as" "a \<le> m" "\<forall>r\<in>set as. r \<le> m"
    by blast
  then show ?thesis
    by (auto simp: rs Math_max_def comp_def)
qed

lemma sum_list_le_length:
  "(\<forall>r\<in>set rs. r \<le> hi) \<Longrightarrow> sum_list rs \<le> real (length rs) * hi"
  by (induction rs) (auto simp: algebra_simps)

lemma sum_list_ge_length:
  "(\<forall>r\<in>set rs. lo \<le> r) \<Longrightarrow> real (length rs) * lo \<le> sum_list rs"
  by (induction rs) (auto simp: algebra_simps)

lemma mean_between:
  assumes "rs \<noteq> []" and "\<forall>r\<in>set rs. lo \<le> r \<and> r \<le> hi"
  shows "lo \<le> sum_list rs / real (length rs) \<and> sum_list rs / real (length rs) \<le> hi"
proof -
  have n: "0 < real (length rs)" using assms(1) by simp
  have "sum_list rs \<le> real (length rs) * hi" using assms(2) by (simp add: sum_list_le_length)
  moreover have "real (length rs) * lo \<le> sum_list rs" using assms(2) by (simp add: sum_list_ge_length)
  ultimately show ?thesis using n
    by (simp add: pos_le_divide_eq pos_divide_le_eq mult.commute)
qed

lemma position_rounded_mean:
  assumes "ps \<noteq> []"
    and "sums_without_rounding 0 (map fst ps)" and "sums_without_rounding 0 (map snd ps)"
  shows "position (findOptimalLabelPosition (map real_point ps) t fs) =
           \<lparr>x = Num (round_double (sum_list (map fst ps) / real (length ps))),
            y = Num (round_double (sum_list (map snd ps) / real (length ps)))\<rparr>"
  using assms(1)
  by (simp add: findOptimalLabelPosition_def reduce_sum_x_exact [OF assms(2)]
      reduce_sum_y_exact [OF assms(3)])

lemma getBounds_real:
  assumes "ps \<noteq> []"
  shows "\<exists>lx hx ly hy.
           getBounds (map real_point ps) =
             \<lparr>minX = Fin lx, minY = Fin ly, maxX = Fin hx, maxY = Fin hy,
              width = round_double (hx - lx), height = round_double (hy - ly)\<rparr>
         \<and> (\<forall>p\<in>set ps. lx \<le> fst p \<and> fst p \<le> hx \<and> ly \<le> snd p \<and> snd p \<le> hy)
         \<and> lx \<in> fst ` set ps \<and> hx \<in> fst ` set ps \<and> ly \<in> snd ` set ps \<and> hy \<in> snd ` set ps"
proof -
  have xs: "map x (map real_point ps) = map (\<lambda>r. Num (Fin r)) (map fst ps)"
    and ys: "map y (map real_point ps) = map (\<lambda>r. Num (Fin r)) (map snd ps)"
    by (simp_all add: real_point_def comp_def)
  have ne: "map fst ps \<noteq> []" "map snd ps \<noteq> []" using assms by simp_all
  from Math_min_real [OF ne(1)] obtain lx where
    lx: "Math_min (map x (map real_point ps)) = Fin lx" "lx \<in> fst ` set ps" "\<forall>p\<in>set ps. lx \<le> fst p"
    unfolding xs by auto
  from Math_max_real [OF ne(1)] obtain hx where
    hx: "Math_max (map x (map real_point ps)) = Fin hx" "hx \<in> fst ` set ps" "\<forall>p\<in>set ps. fst p \<le> hx"
    unfolding xs by auto
  from Math_min_real [OF ne(2)] obtain ly where
    ly: "Math_min (map y (map real_point ps)) = Fin ly" "ly \<in> snd ` set ps" "\<forall>p\<in>set ps. ly \<le> snd p"
    unfolding ys by auto
  from Math_max_real [OF ne(2)] obtain hy where
    hy: "Math_max (map y (map real_point ps)) = Fin hy" "hy \<in> snd ` set ps" "\<forall>p\<in>set ps. snd p \<le> hy"
    unfolding ys by auto
  have "getBounds (map real_point ps) =
        \<lparr>minX = Fin lx, minY = Fin ly, maxX = Fin hx, maxY = Fin hy,
         width = round_double (hx - lx), height = round_double (hy - ly)\<rparr>"
    by (simp add: getBounds_def Let_def lx(1) hx(1) ly(1) hy(1) js_sub_def del: map_map)
  with lx hx ly hy show ?thesis by blast
qed

lemma getBounds_square_ring:
  "getBounds (map real_point square_ring) =
     \<lparr>minX = Fin 0, minY = Fin 0, maxX = Fin 10, maxY = Fin 10, width = Fin 10, height = Fin 10\<rparr>"
  by (simp add: square_ring_def real_point_def getBounds_def Math_min_def Math_max_def js_sub_def
      round_double_simps)

lemma square_ring_sums:
  "sums_without_rounding 0 (map fst square_ring)" "sums_without_rounding 0 (map snd square_ring)"
  by (simp_all add: square_ring_def is_double_def round_double_simps)

text \<open>The double nearest to \<open>0.1\<close>, three times over.\<close>

lemma tenth_is_double: "is_double tenth" "is_double below_tenth"
  unfolding is_double_def tenth_def below_tenth_def
  using round_double_eqI [of "- 56" "7205759403792794 / 72057594037927936" 7205759403792794]
    round_double_eqI [of "- 56" "7205759403792793 / 72057594037927936" 7205759403792793]
  by simp_all

lemma Number_tenth: "round_double (1 / 10) = Fin tenth"
  unfolding tenth_def
  using round_double_eqI [of "- 56" "1 / 10" 7205759403792794] by simp

lemma tenth_twice: "round_double (tenth + tenth) = Fin (2 * tenth)"
  unfolding tenth_def
  using round_double_eqI [of "- 55" "7205759403792794 / 72057594037927936 + 7205759403792794 / 72057594037927936" 7205759403792794]
  by simp

lemma tenth_and_below: "round_double (tenth + below_tenth) = Fin (2 * tenth)"
  unfolding tenth_def below_tenth_def
  using round_double_eqI [of "- 55" "7205759403792794 / 72057594037927936 + 7205759403792793 / 72057594037927936" 7205759403792794]
  by simp

lemma tenth_thrice: "round_double (2 * tenth + tenth) = Fin (5404319552844596 / 18014398509481984)"
  unfolding tenth_def
  using round_double_eqI [of "- 54" "2 * (7205759403792794 / 72057594037927936) + 7205759403792794 / 72057594037927936" 5404319552844596]
  by simp

lemma tenth_mean: "round_double (5404319552844596 / 18014398509481984 / 3) = Fin (7205759403792795 / 72057594037927936)"
  using round_double_eqI [of "- 56" "5404319552844596 / 18014398509481984 / 3" 7205759403792795]
  by simp

lemma big_difference: "round_double (9007199254740992 - (- 1)) = Fin 9007199254740992"
  using round_double_eqI [of 1 "9007199254740992 - (- 1)" 4503599627370496] by simp

section \<open>The viewport transform on given bounds\<close>




























section \<open>Trimming, splitting and reading numbers\<close>

lemmas parse_eval =
  parseWKTPolygon_def cleaned_def str_def trim_def is_space_def replace_polygon_prefix_def canonicalize_def
  replace_closing_suffix_def parse_pair_def Number_def StrNumericLiteral_def NonDecimalIntegerLiteral_def
  StrDecimalLiteral_def StrUnsignedDecimalLiteral_def ExponentPart_opt_def is_digit_def digits_value_def digit_of_def
  scale10_def element_def Let_def round_double_simps


lemma dropWhile_id: "s \<noteq> [] \<Longrightarrow> \<not> P (hd s) \<Longrightarrow> dropWhile P s = s"
  by (cases s) simp_all

lemma trim_id:
  assumes "s \<noteq> []" and "\<not> is_space (hd s)" and "\<not> is_space (last s)"
  shows "trim s = s"
proof -
  have "dropWhile is_space s = s" using assms by (simp add: dropWhile_id)
  moreover have "dropWhile is_space (rev s) = rev s"
    using assms by (simp add: dropWhile_id hd_rev)
  ultimately show ?thesis by (simp add: trim_def)
qed






lemma split_on_nonempty: "split_on sep s \<noteq> []"
  by (induction s) (auto split: list.splits)











lemma Number_decimal_digits:
  assumes "ds \<noteq> []" and "list_all is_digit ds"
  shows "Number ds = round_double (of_int (digits_value 10 ds))"
proof -
  have nsp: "\<not> is_space c" if "is_digit c" for c
    using that by (auto simp: is_digit_def is_space_def word_le_nat_alt)
  have hd: "is_digit (hd ds)" and last: "is_digit (last ds)"
    using assms by (simp_all add: list_all_iff)
  have t: "trim ds = ds"
    using assms(1) hd last by (intro trim_id) (simp_all add: nsp)
  obtain d rest where ds: "ds = d # rest" using assms(1) by (cases ds) auto
  have d: "is_digit d" using hd ds by simp
  have nd: "NonDecimalIntegerLiteral ds = None"
  proof (cases rest)
    case Nil
    then show ?thesis by (simp add: ds NonDecimalIntegerLiteral_def)
  next
    case (Cons k more)
    then have "is_digit k" using assms(2) ds by simp
    then show ?thesis
      by (auto simp: ds Cons NonDecimalIntegerLiteral_def is_digit_def)
  qed
  have inf: "ds \<noteq> str ''Infinity''"
    using d by (auto simp: ds str_def is_digit_def)
  have tw: "takeWhile is_digit ds = ds" "dropWhile is_digit ds = []"
    using assms(2) by (simp_all add: list_all_iff)
  have "StrUnsignedDecimalLiteral ds = Some (round_double (of_int (digits_value 10 ds)))"
    using inf assms(1) by (simp add: StrUnsignedDecimalLiteral_def tw ExponentPart_opt_def scale10_def)
  moreover have "d \<noteq> 0x2B" "d \<noteq> 0x2D" using d by (auto simp: is_digit_def)
  ultimately have "StrDecimalLiteral ds = Some (round_double (of_int (digits_value 10 ds)))"
    by (simp add: StrDecimalLiteral_def ds)
  then show ?thesis
    using assms(1) by (simp add: Number_def t StrNumericLiteral_def nd)
qed

lemma length_parseWKTPolygon:
  "length (parseWKTPolygon wkt) = length (split_on 0x2C (cleaned wkt))"
  by (simp add: parseWKTPolygon_def)

lemma length_split_on: "length (split_on sep s) = Suc (count_list s sep)"
  by (induction s) (auto split: list.splits)



section \<open>The outcomes of processWKT\<close>

lemma processWKT_too_few:
  assumes "length (parseWKTPolygon wkt) < 3"
  shows "processWKT max_arguments wkt n st =
           st\<lparr>isProcessing := False, error := Some (str ''WKT must be a valid POLYGON format.''),
              labelResult := None, riverData := None\<rparr>"
  using assms by (simp add: processWKT_def processWKT_timeout_def processWKT_try_def Let_def)



lemma processWKT_too_many:
  assumes "3 \<le> length (parseWKTPolygon wkt)"
    and "\<not> within_arguments max_arguments (length (parseWKTPolygon wkt))"
  shows "processWKT_try max_arguments wkt sourceName st = Inl RangeError"
    and "processWKT max_arguments wkt n st =
           st\<lparr>isProcessing := False, error := Some (str ''Failed to parse WKT string.''),
              labelResult := None, riverData := None\<rparr>"
  using assms
  by (simp_all add: processWKT_def processWKT_timeout_def processWKT_try_def getBounds_call_def Let_def)

lemma processWKT_try_normal:
  assumes "within_arguments max_arguments (length (parseWKTPolygon wkt)) \<or> length (parseWKTPolygon wkt) < 3"
  shows "\<exists>st'. processWKT_try max_arguments wkt sourceName st = Inr st'"
  using assms by (auto simp: processWKT_try_def getBounds_call_def Let_def)

lemma processWKT_no_failure:
  assumes "within_arguments max_arguments (length (parseWKTPolygon wkt)) \<or> length (parseWKTPolygon wkt) < 3"
  shows "error (processWKT max_arguments wkt n st) \<noteq> Some (str ''Failed to parse WKT string.'')"
  using assms
  by (auto simp: processWKT_def processWKT_timeout_def processWKT_try_def getBounds_call_def Let_def str_def)









lemma parse_two: "parseWKTPolygon (str ''POLYGON((0 0, 1 1))'') = map real_point [(0, 0), (1, 1)]"
  by (simp add: parse_eval real_point_def)








text \<open>A text of nothing but commas is left as it is by the cleaning.\<close>

lemma cleaned_commas:
  assumes "0 < n"
  shows "cleaned (replicate n 0x2C) = replicate n 0x2C"
proof -
  obtain k where n: "n = Suc k" using assms by (cases n) auto
  have ns: "\<not> is_space 0x2C" by (simp add: is_space_def)
  have t: "trim (replicate n 0x2C) = replicate n 0x2C"
    using assms ns by (intro trim_id) (simp_all add: n last_replicate)
  have p: "replace_polygon_prefix (replicate n 0x2C) = replicate n 0x2C"
    by (simp add: replace_polygon_prefix_def n str_def canonicalize_def)
  have "(0x29 :: 16 word) \<notin> set (drop (length (replicate n (0x2C :: 16 word)) - 2) (replicate n 0x2C))"
    by (auto dest: in_set_dropD)
  moreover have "(0x29 :: 16 word) \<in> set (str ''))'')"
    by (simp add: str_def)
  ultimately have "drop (length (replicate n (0x2C :: 16 word)) - 2) (replicate n 0x2C) \<noteq> str ''))''"
    by metis
  then have s: "replace_closing_suffix (replicate n 0x2C) = replicate n 0x2C"
    by (simp add: replace_closing_suffix_def)
  show ?thesis by (simp only: cleaned_def t p s)
qed

lemma count_list_replicate: "count_list (replicate n c) c = n"
  by (induction n) simp_all

lemma length_parse_commas:
  assumes "0 < n"
  shows "length (parseWKTPolygon (replicate n 0x2C)) = Suc n"
  by (simp only: length_parseWKTPolygon length_split_on cleaned_commas [OF assms] count_list_replicate)

section \<open>Label placement\<close>

lemma tenth_sum: "reduce_sum x (map real_point [(tenth, 0), (tenth, 1), (tenth, 2)]) = Fin (5404319552844596 / 18014398509481984)"
proof -
  have s1: "js_add (Fin 0) (Fin tenth) = Fin tenth"
    using tenth_is_double(1) by (simp add: is_double_def)
  have s2: "js_add (Fin tenth) (Fin tenth) = Fin (2 * tenth)"
    by (simp only: js_add.simps tenth_twice)
  have s3: "js_add (Fin (2 * tenth)) (Fin tenth) = Fin (5404319552844596 / 18014398509481984)"
    by (simp only: js_add.simps tenth_thrice)
  show ?thesis
    by (simp only: reduce_sum_def real_point_def list.map foldl.simps Point.simps ToNumber.simps
        fst_conv snd_conv s1 s2 s3)
qed

lemma tenth_below_sum: "reduce_sum x (map real_point [(tenth, 0), (below_tenth, 1), (tenth, 2)]) = Fin (5404319552844596 / 18014398509481984)"
proof -
  have s1: "js_add (Fin 0) (Fin tenth) = Fin tenth"
    using tenth_is_double(1) by (simp add: is_double_def)
  have s2: "js_add (Fin tenth) (Fin below_tenth) = Fin (2 * tenth)"
    by (simp only: js_add.simps tenth_and_below)
  have s3: "js_add (Fin (2 * tenth)) (Fin tenth) = Fin (5404319552844596 / 18014398509481984)"
    by (simp only: js_add.simps tenth_thrice)
  show ?thesis
    by (simp only: reduce_sum_def real_point_def list.map foldl.simps Point.simps ToNumber.simps
        fst_conv snd_conv s1 s2 s3)
qed

lemma tenth_quotient:
  "js_div (Fin (5404319552844596 / 18014398509481984)) (Fin (real (length [a, b, c])))
     = Fin (7205759403792795 / 72057594037927936)"
proof -
  have "real (length [a, b, c]) = 3" by simp
  moreover have "js_div (Fin (5404319552844596 / 18014398509481984)) (Fin 3)
      = round_double (5404319552844596 / 18014398509481984 / 3)"
    by (simp only: js_div.simps) simp
  ultimately show ?thesis by (simp only: tenth_mean)
qed

lemma zero_one_two_mean:
  "js_div (reduce_sum y (map real_point [(a, 0), (b, 1), (c, 2)])) (Fin (real (length [p, q, r]))) = Fin 1"
  by (simp add: reduce_sum_def real_point_def round_double_simps)

text \<open>
  Claim C1, as stated, fails: for three vertices whose x is the double nearest to 0.1 the
  exact mean of the x is that double, but the additions and the division round, and the
  position has the next double above it.
\<close>

theorem label_mean_rounds_counterexample:
  "is_double tenth
   \<and> position (findOptimalLabelPosition (map real_point [(tenth, 0), (tenth, 1), (tenth, 2)]) [] (Fin 24))
       = \<lparr>x = Num (Fin (7205759403792795 / 72057594037927936)), y = Num (Fin 1)\<rparr>
   \<and> sum_list (map fst [(tenth, 0 :: real), (tenth, 1), (tenth, 2)]) / 3 = tenth
   \<and> tenth < 7205759403792795 / 72057594037927936"
proof -
  have "position (findOptimalLabelPosition (map real_point [(tenth, 0), (tenth, 1), (tenth, 2)]) [] (Fin 24))
       = \<lparr>x = Num (Fin (7205759403792795 / 72057594037927936)), y = Num (Fin 1)\<rparr>"
    unfolding findOptimalLabelPosition_def Let_def length_map tenth_sum tenth_quotient zero_one_two_mean
    by simp
  moreover have "sum_list (map fst [(tenth, 0 :: real), (tenth, 1), (tenth, 2)]) / 3 = tenth" by simp
  moreover have "tenth < 7205759403792795 / 72057594037927936" by (simp add: tenth_def)
  ultimately show ?thesis using tenth_is_double(1) by blast
qed

text \<open>
  Claim C1, amended. For a non-empty sequence of points with finite coordinates whose
  running sums, taken from 0 in the order of the sequence, need no rounding, the position
  that findOptimalLabelPosition returns is the arithmetic mean of all the vertices (the
  sum over every point, a repeated closing vertex included, divided by the number of
  points) rounded to the nearest double. For the ring (0 0, 10 0, 10 10, 0 10, 0 0) this
  is (4, 4).
\<close>

theorem label_position_is_rounded_mean:
  assumes "ps \<noteq> []"
    and "sums_without_rounding 0 (map fst ps)" and "sums_without_rounding 0 (map snd ps)"
  shows "position (findOptimalLabelPosition (map real_point ps) t fs) =
           \<lparr>x = Num (round_double (sum_list (map fst ps) / real (length ps))),
            y = Num (round_double (sum_list (map snd ps) / real (length ps)))\<rparr>"
  using assms by (rule position_rounded_mean)

theorem label_position_square_ring_witness:
  "square_ring \<noteq> []
   \<and> sums_without_rounding 0 (map fst square_ring)
   \<and> sums_without_rounding 0 (map snd square_ring)
   \<and> position (findOptimalLabelPosition (map real_point square_ring) [] (Fin 24))
     = \<lparr>x = Num (Fin 4), y = Num (Fin 4)\<rparr>"
proof -
  have ne: "square_ring \<noteq> []" by (simp add: square_ring_def)
  have "position (findOptimalLabelPosition (map real_point square_ring) [] (Fin 24))
     = \<lparr>x = Num (Fin 4), y = Num (Fin 4)\<rparr>"
    using label_position_is_rounded_mean [OF ne square_ring_sums, of "[]" "Fin 24"]
    by (simp add: square_ring_def round_double_simps)
  with ne square_ring_sums show ?thesis by blast
qed

text \<open>
  Claim C2. Whatever the points, the text and the font size, the result has rotation 0,
  isInside true, actualFontSize and textHeight equal to the font size, and textWidth
  equal to the font size times 6, which for a finite font size is their exact product
  whenever that is a double; the points have no influence on these fields.
\<close>

theorem label_result_constant_fields:
  "rotation (findOptimalLabelPosition pts t fontSize) = Fin 0
   \<and> isInside (findOptimalLabelPosition pts t fontSize) = True
   \<and> actualFontSize (findOptimalLabelPosition pts t fontSize) = fontSize
   \<and> textWidth (findOptimalLabelPosition pts t fontSize) = js_mul fontSize (Fin 6)
   \<and> textHeight (findOptimalLabelPosition pts t fontSize) = fontSize
   \<and> (is_double (r * 6) \<longrightarrow> textWidth (findOptimalLabelPosition pts t (Fin r)) = Fin (r * 6))"
  by (simp add: findOptimalLabelPosition_def is_double_def)

theorem label_result_constant_fields_witness:
  "rotation (findOptimalLabelPosition [] [] (Fin 24)) = Fin 0
   \<and> isInside (findOptimalLabelPosition [] [] (Fin 24))
   \<and> actualFontSize (findOptimalLabelPosition [] [] (Fin 24)) = Fin 24
   \<and> is_double (24 * 6)
   \<and> textWidth (findOptimalLabelPosition [] [] (Fin 24)) = Fin 144
   \<and> textHeight (findOptimalLabelPosition [] [] (Fin 24)) = Fin 24"
proof -
  have d: "is_double (24 * 6)" by (simp add: is_double_def round_double_simps)
  from label_result_constant_fields [of "[]" "[]" "Fin 24" 24] d
  show ?thesis by (simp add: is_double_def)
qed

section \<open>Bounds\<close>

text \<open>
  Claim C4, as stated, fails: for the two vertices (9007199254740992, 0) and (-1, 1) the
  width is the double 9007199254740992, not the difference 9007199254740993 of maxX and
  minX, which is no double.
\<close>

theorem bounds_width_rounds_counterexample:
  "is_double 9007199254740992 \<and> is_double (- 1)
   \<and> getBounds (map real_point [(9007199254740992, 0), (- 1, 1)])
       = \<lparr>minX = Fin (- 1), minY = Fin 0, maxX = Fin 9007199254740992, maxY = Fin 1,
          width = Fin 9007199254740992, height = Fin 1\<rparr>
   \<and> (9007199254740992 :: real) - (- 1) = 9007199254740993"
proof -
  have "is_double 9007199254740992" "is_double (- 1)"
    using is_double_of_int [of 9007199254740992] is_double_of_int [of "- 1"] by simp_all
  moreover have "getBounds (map real_point [(9007199254740992, 0), (- 1, 1)])
       = \<lparr>minX = Fin (- 1), minY = Fin 0, maxX = Fin 9007199254740992, maxY = Fin 1,
          width = Fin 9007199254740992, height = Fin 1\<rparr>"
    using big_difference
    by (simp add: getBounds_def real_point_def Math_min_def Math_max_def js_sub_def round_double_simps)
  ultimately show ?thesis by simp
qed

text \<open>
  Claim C4, amended. For a non-empty sequence of points with finite coordinates, getBounds
  returns finite minX, maxX, minY and maxY that enclose every point, each of them is the
  coordinate of some point of the sequence, and width and height are the differences
  maxX - minX and maxY - minY rounded to the nearest double.
\<close>

theorem getBounds_encloses_points:
  assumes "ps \<noteq> []"
  shows "\<exists>lx hx ly hy.
           getBounds (map real_point ps) =
             \<lparr>minX = Fin lx, minY = Fin ly, maxX = Fin hx, maxY = Fin hy,
              width = round_double (hx - lx), height = round_double (hy - ly)\<rparr>
         \<and> (\<forall>p\<in>set ps. lx \<le> fst p \<and> fst p \<le> hx \<and> ly \<le> snd p \<and> snd p \<le> hy)
         \<and> lx \<in> fst ` set ps \<and> hx \<in> fst ` set ps \<and> ly \<in> snd ` set ps \<and> hy \<in> snd ` set ps"
  using getBounds_real [OF assms] .

theorem getBounds_encloses_points_witness:
  "square_ring \<noteq> []
   \<and> (\<exists>lx hx ly hy.
           getBounds (map real_point square_ring) =
             \<lparr>minX = Fin lx, minY = Fin ly, maxX = Fin hx, maxY = Fin hy,
              width = round_double (hx - lx), height = round_double (hy - ly)\<rparr>
         \<and> (\<forall>p\<in>set square_ring.
               lx \<le> fst p \<and> fst p \<le> hx \<and> ly \<le> snd p \<and> snd p \<le> hy)
         \<and> lx \<in> fst ` set square_ring
         \<and> hx \<in> fst ` set square_ring
         \<and> ly \<in> snd ` set square_ring
         \<and> hy \<in> snd ` set square_ring)"
proof -
  have ne: "square_ring \<noteq> []"
    by (simp add: square_ring_def)
  show ?thesis
    using ne getBounds_encloses_points [OF ne] by (rule conjI)
qed

lemma tenth_gap: "js_sub (Fin tenth) (Fin below_tenth) = Fin (1 / 72057594037927936)"
proof -
  have "round_double (tenth - below_tenth) = Fin (1 / 72057594037927936)"
    unfolding tenth_def below_tenth_def
    using round_double_eqI [of "- 108" "7205759403792794 / 72057594037927936 - 7205759403792793 / 72057594037927936" 4503599627370496]
    by simp
  then show ?thesis by (simp add: js_sub_def)
qed

lemma tenth_bounds:
  "getBounds (map real_point [(tenth, 0), (below_tenth, 1), (tenth, 2)])
     = \<lparr>minX = Fin below_tenth, minY = Fin 0, maxX = Fin tenth, maxY = Fin 2,
        width = Fin (1 / 72057594037927936), height = Fin 2\<rparr>"
proof -
  have lt: "below_tenth < tenth" by (simp add: tenth_def below_tenth_def)
  have mn: "Math_min [Num (Fin tenth), Num (Fin below_tenth), Num (Fin tenth)] = Fin below_tenth"
    using lt by (simp add: Math_min_def)
  have mx: "Math_max [Num (Fin tenth), Num (Fin below_tenth), Num (Fin tenth)] = Fin tenth"
    using lt by (simp add: Math_max_def)
  have ys: "Math_min [Num (Fin 0), Num (Fin 1), Num (Fin 2)] = Fin 0"
    "Math_max [Num (Fin 0), Num (Fin 1), Num (Fin 2)] = Fin 2"
    by (simp_all add: Math_min_def Math_max_def)
  have h: "js_sub (Fin 2) (Fin 0) = Fin 2"
    by (simp add: js_sub_def round_double_simps)
  show ?thesis
    unfolding getBounds_def Let_def real_point_def
    by (simp only: list.map Point.select_convs fst_conv snd_conv mn mx ys tenth_gap h)
qed

text \<open>
  Claim C6, as stated, fails: for the vertices (0.1, 0), (0.09999999999999999, 1) and
  (0.1, 2), whose bounds have a width and a height other than 0, two of the additions and
  the division round upwards and the position has an x above maxX.
\<close>

theorem label_outside_bounds_counterexample:
  "is_double tenth \<and> is_double below_tenth
   \<and> x (position (findOptimalLabelPosition
          (map real_point [(tenth, 0), (below_tenth, 1), (tenth, 2)]) [] (Fin 24)))
       = Num (Fin (7205759403792795 / 72057594037927936))
   \<and> getBounds (map real_point [(tenth, 0), (below_tenth, 1), (tenth, 2)])
       = \<lparr>minX = Fin below_tenth, minY = Fin 0, maxX = Fin tenth, maxY = Fin 2,
          width = Fin (1 / 72057594037927936), height = Fin 2\<rparr>
   \<and> tenth < 7205759403792795 / 72057594037927936"
proof -
  have "x (position (findOptimalLabelPosition
          (map real_point [(tenth, 0), (below_tenth, 1), (tenth, 2)]) [] (Fin 24)))
       = Num (Fin (7205759403792795 / 72057594037927936))"
    unfolding findOptimalLabelPosition_def Let_def length_map tenth_below_sum tenth_quotient
    by simp
  moreover have "tenth < 7205759403792795 / 72057594037927936" by (simp add: tenth_def)
  ultimately show ?thesis using tenth_is_double tenth_bounds by blast
qed

text \<open>
  Claim C6, amended. For a non-empty sequence of points whose coordinates are doubles and
  whose running sums need no rounding, the label position lies in the box from minX to
  maxX and from minY to maxY that getBounds computes for the same sequence.
\<close>

theorem label_position_within_bounds:
  assumes ne: "ps \<noteq> []"
    and dbl: "\<forall>p\<in>set ps. is_double (fst p) \<and> is_double (snd p)"
    and sx: "sums_without_rounding 0 (map fst ps)" and sy: "sums_without_rounding 0 (map snd ps)"
  shows "\<exists>cx cy lx hx ly hy.
           position (findOptimalLabelPosition (map real_point ps) t fs) = \<lparr>x = Num (Fin cx), y = Num (Fin cy)\<rparr>
         \<and> minX (getBounds (map real_point ps)) = Fin lx
         \<and> maxX (getBounds (map real_point ps)) = Fin hx
         \<and> minY (getBounds (map real_point ps)) = Fin ly
         \<and> maxY (getBounds (map real_point ps)) = Fin hy
         \<and> lx \<le> cx \<and> cx \<le> hx \<and> ly \<le> cy \<and> cy \<le> hy"
proof -
  from getBounds_real [OF ne] obtain lx hx ly hy where
    b: "getBounds (map real_point ps) =
          \<lparr>minX = Fin lx, minY = Fin ly, maxX = Fin hx, maxY = Fin hy,
           width = round_double (hx - lx), height = round_double (hy - ly)\<rparr>"
    and box: "\<forall>p\<in>set ps. lx \<le> fst p \<and> fst p \<le> hx \<and> ly \<le> snd p \<and> snd p \<le> hy"
    and att: "lx \<in> fst ` set ps" "hx \<in> fst ` set ps" "ly \<in> snd ` set ps" "hy \<in> snd ` set ps"
    by blast
  have d: "is_double lx" "is_double hx" "is_double ly" "is_double hy"
    using att dbl by auto
  have mx: "lx \<le> sum_list (map fst ps) / real (length (map fst ps))
        \<and> sum_list (map fst ps) / real (length (map fst ps)) \<le> hx"
    using ne box by (intro mean_between) auto
  have my: "ly \<le> sum_list (map snd ps) / real (length (map snd ps))
        \<and> sum_list (map snd ps) / real (length (map snd ps)) \<le> hy"
    using ne box by (intro mean_between) auto
  from round_double_between [OF d(1,2)] mx obtain cx where
    cx: "round_double (sum_list (map fst ps) / real (length ps)) = Fin cx" "lx \<le> cx" "cx \<le> hx"
    by auto
  from round_double_between [OF d(3,4)] my obtain cy where
    cy: "round_double (sum_list (map snd ps) / real (length ps)) = Fin cy" "ly \<le> cy" "cy \<le> hy"
    by auto
  show ?thesis
    using position_rounded_mean [OF ne sx sy, of t fs] b cx cy by simp
qed

lemma square_ring_doubles: "\<forall>p\<in>set square_ring. is_double (fst p) \<and> is_double (snd p)"
  by (simp add: square_ring_def is_double_def round_double_simps)

theorem label_position_within_bounds_witness:
  "square_ring \<noteq> []
   \<and> list_all (\<lambda>p. is_double (fst p) \<and> is_double (snd p)) square_ring
   \<and> sums_without_rounding 0 (map fst square_ring)
   \<and> sums_without_rounding 0 (map snd square_ring)
   \<and> (\<exists>cx cy lx hx ly hy.
           position (findOptimalLabelPosition
              (map real_point square_ring) [] (Fin 24))
             = \<lparr>x = Num (Fin cx), y = Num (Fin cy)\<rparr>
         \<and> minX (getBounds (map real_point square_ring)) = Fin lx
         \<and> maxX (getBounds (map real_point square_ring)) = Fin hx
         \<and> minY (getBounds (map real_point square_ring)) = Fin ly
         \<and> maxY (getBounds (map real_point square_ring)) = Fin hy
         \<and> lx \<le> cx \<and> cx \<le> hx \<and> ly \<le> cy \<and> cy \<le> hy)"
proof -
  have ne: "square_ring \<noteq> []"
    by (simp add: square_ring_def)
  from label_position_within_bounds [OF ne square_ring_doubles square_ring_sums, of "[]" "Fin 24"]
    ne square_ring_doubles square_ring_sums
  show ?thesis by (simp only: list_all_iff simp_thms)
qed

section \<open>Viewport projection\<close>





section \<open>Parsing well-formed text\<close>



section \<open>Validation in processWKT\<close>

text \<open>
  Claim C9. Whenever the text parses to fewer than 3 points, processWKT sets the error
  ``WKT must be a valid POLYGON format.'' and leaves no RiverData, on every engine.
\<close>

theorem too_few_points_rejected:
  assumes "length (parseWKTPolygon wkt) < 3"
  shows "error (processWKT max_arguments wkt n st) = Some (str ''WKT must be a valid POLYGON format.'')
         \<and> riverData (processWKT max_arguments wkt n st) = None"
  using processWKT_too_few [OF assms] by simp

theorem too_few_points_rejected_witness:
  "length (parseWKTPolygon (str ''POLYGON((0 0, 1 1))'')) < 3
   \<and> error (processWKT None (str ''POLYGON((0 0, 1 1))'') None initial_state)
       = Some (str ''WKT must be a valid POLYGON format.'')
   \<and> riverData (processWKT None (str ''POLYGON((0 0, 1 1))'') None initial_state) = None"
proof -
  have few: "length (parseWKTPolygon (str ''POLYGON((0 0, 1 1))'')) < 3"
    by (simp add: parse_two)
  show ?thesis
    using few too_few_points_rejected [OF few] by (rule conjI)
qed






text \<open>
  Claim C10, as stated, fails: on an engine that takes at most 125000 arguments, the text
  of 125000 commas parses to 125001 points, \<open>Math.min(...xs)\<close> throws a RangeError in
  getBounds, and the catch branch reports ``Failed to parse WKT string.''.
\<close>

theorem catch_branch_reached_counterexample:
  "length (parseWKTPolygon (replicate 125000 0x2C)) = 125001
   \<and> getBounds_call (Some 125000) (parseWKTPolygon (replicate 125000 0x2C)) = Inl RangeError
   \<and> error (processWKT (Some 125000) (replicate 125000 0x2C) None initial_state)
       = Some (str ''Failed to parse WKT string.'')
   \<and> riverData (processWKT (Some 125000) (replicate 125000 0x2C) None initial_state) = None"
proof -
  have len: "length (parseWKTPolygon (replicate 125000 0x2C)) = Suc 125000"
    by (rule length_parse_commas) simp
  have three: "3 \<le> length (parseWKTPolygon (replicate 125000 0x2C))"
    unfolding len by simp
  have over: "\<not> within_arguments (Some 125000) (length (parseWKTPolygon (replicate 125000 0x2C)))"
    unfolding len by (simp add: within_arguments_def)
  have "getBounds_call (Some 125000) (parseWKTPolygon (replicate 125000 0x2C)) = Inl RangeError"
    using over by (simp only: getBounds_call_def if_False)
  moreover have "length (parseWKTPolygon (replicate 125000 0x2C)) = 125001"
    unfolding len by simp
  ultimately show ?thesis
    unfolding processWKT_too_many(2) [OF three over] by simp
qed

text \<open>
  Claim C10, amended. For every string, parseWKTPolygon returns one point per fragment
  between commas of the cleaned text, one more than the number of its commas and so at
  least one. The \<open>try\<close> block of processWKT completes normally, and the error is not
  ``Failed to parse WKT string.'', whenever the points are fewer than 3 or no more than
  the engine takes as arguments of one call; on an engine without such a limit that is
  always. When the points are at least 3 and more than the engine takes, getBounds throws
  a RangeError and the catch branch reports ``Failed to parse WKT string.''.
\<close>

theorem parse_returns_and_catch_needs_overflow:
  "parseWKTPolygon wkt = map parse_pair (split_on 0x2C (cleaned wkt))
   \<and> length (parseWKTPolygon wkt) = Suc (count_list (cleaned wkt) 0x2C)
   \<and> (within_arguments max_arguments (length (parseWKTPolygon wkt))
        \<or> length (parseWKTPolygon wkt) < 3 \<longrightarrow>
      (\<exists>st'. processWKT_try max_arguments wkt sourceName st = Inr st')
      \<and> error (processWKT max_arguments wkt n st) \<noteq> Some (str ''Failed to parse WKT string.''))
   \<and> getBounds_call None (parseWKTPolygon wkt) = Inr (getBounds (parseWKTPolygon wkt))
   \<and> (\<exists>st'. processWKT_try None wkt sourceName st = Inr st')
   \<and> error (processWKT None wkt n st) \<noteq> Some (str ''Failed to parse WKT string.'')
   \<and> (3 \<le> length (parseWKTPolygon wkt)
        \<and> \<not> within_arguments max_arguments (length (parseWKTPolygon wkt)) \<longrightarrow>
      processWKT_try max_arguments wkt sourceName st = Inl RangeError
      \<and> error (processWKT max_arguments wkt n st) = Some (str ''Failed to parse WKT string.'')
      \<and> riverData (processWKT max_arguments wkt n st) = None)"
proof -
  have none: "within_arguments None (length (parseWKTPolygon wkt)) \<or> length (parseWKTPolygon wkt) < 3"
    by (simp add: within_arguments_def)
  have "parseWKTPolygon wkt = map parse_pair (split_on 0x2C (cleaned wkt))"
    by (simp add: parseWKTPolygon_def)
  moreover have "length (parseWKTPolygon wkt) = Suc (count_list (cleaned wkt) 0x2C)"
    by (simp add: parseWKTPolygon_def length_split_on)
  moreover have "getBounds_call None (parseWKTPolygon wkt) = Inr (getBounds (parseWKTPolygon wkt))"
    by (simp add: getBounds_call_def within_arguments_def)
  moreover have "3 \<le> length (parseWKTPolygon wkt)
        \<and> \<not> within_arguments max_arguments (length (parseWKTPolygon wkt)) \<longrightarrow>
      processWKT_try max_arguments wkt sourceName st = Inl RangeError
      \<and> error (processWKT max_arguments wkt n st) = Some (str ''Failed to parse WKT string.'')
      \<and> riverData (processWKT max_arguments wkt n st) = None"
    by (simp add: processWKT_too_many)
  ultimately show ?thesis
    using processWKT_try_normal [of max_arguments wkt sourceName st]
      processWKT_no_failure [of max_arguments wkt n st]
      processWKT_try_normal [OF none, of sourceName st]
      processWKT_no_failure [OF none, of n st]
    by blast
qed

theorem parse_returns_and_catch_needs_overflow_witness:
  "length (parseWKTPolygon (str ''no polygon, here'')) = 2
   \<and> within_arguments (Some 125000) (length (parseWKTPolygon (str ''no polygon, here'')))
   \<and> error (processWKT (Some 125000) (str ''no polygon, here'') None initial_state)
       \<noteq> Some (str ''Failed to parse WKT string.'')
   \<and> 3 \<le> length (parseWKTPolygon (replicate 125000 0x2C))
   \<and> \<not> within_arguments (Some 125000) (length (parseWKTPolygon (replicate 125000 0x2C)))
   \<and> error (processWKT (Some 125000) (replicate 125000 0x2C) None initial_state)
       = Some (str ''Failed to parse WKT string.'')"
proof -
  have l2: "length (parseWKTPolygon (str ''no polygon, here'')) = 2"
    by (simp add: parse_eval)
  have in2: "within_arguments (Some 125000) (length (parseWKTPolygon (str ''no polygon, here'')))"
    unfolding l2 by (simp add: within_arguments_def)
  have len: "length (parseWKTPolygon (replicate 125000 0x2C)) = Suc 125000"
    by (rule length_parse_commas) simp
  have three: "3 \<le> length (parseWKTPolygon (replicate 125000 0x2C))"
    unfolding len by simp
  have over: "\<not> within_arguments (Some 125000) (length (parseWKTPolygon (replicate 125000 0x2C)))"
    unfolding len by (simp add: within_arguments_def)
  from parse_returns_and_catch_needs_overflow
         [of "str ''no polygon, here''" "Some 125000" "str ''Manual Entry''" initial_state None] in2
  have a: "error (processWKT (Some 125000) (str ''no polygon, here'') None initial_state)
       \<noteq> Some (str ''Failed to parse WKT string.'')"
    by blast
  from parse_returns_and_catch_needs_overflow
         [of "replicate 125000 0x2C" "Some 125000" "str ''Manual Entry''" initial_state None] three over
  have b: "error (processWKT (Some 125000) (replicate 125000 0x2C) None initial_state)
       = Some (str ''Failed to parse WKT string.'')"
    by blast
  from l2 in2 a three over b show ?thesis by blast
qed

end
